theory Spec2Isabelle
  imports Main
begin

section \<open>Values of the Python runtime the monitor uses\<close>

subsection \<open>Exceptions\<close>

text \<open>
  The exception classes that occur in \<^verbatim>\<open>src/__init__.py\<close>.  \<open>AsyncTimeoutError\<close> is
  \<^verbatim>\<open>asyncio.TimeoutError\<close>, \<open>CancelledError\<close> is \<^verbatim>\<open>asyncio.CancelledError\<close> (what a task
  receives at an await when an enclosing \<^verbatim>\<open>async_timeout.timeout\<close> expires), and
  \<open>OtherException\<close> stands for every exception class that is neither of these nor an
  \<^verbatim>\<open>aiohttp.ClientError\<close>.  \<open>TypeError\<close> is what a call with an argument too many raises.
\<close>

datatype exn =
    NameError string
  | KeyError string
  | IndexError
  | TypeError
  | AsyncTimeoutError
  | CancelledError
  | OtherException string

subsection \<open>Decimal rendering of integers\<close>

definition digit_char :: "nat \<Rightarrow> char" where
  "digit_char n = ''0123456789'' ! n"

function str_nat :: "nat \<Rightarrow> string" where
  "str_nat n = (if n < 10 then [digit_char n] else str_nat (n div 10) @ [digit_char (n mod 10)])"
  by pat_completeness auto
termination
  by (relation "measure (\<lambda>n. n)") auto

declare str_nat.simps [simp del]

text \<open>\<^verbatim>\<open>str(i)\<close> and \<^verbatim>\<open>f"{i}"\<close> for a Python \<^verbatim>\<open>int\<close>.\<close>

definition str_int :: "int \<Rightarrow> string" where
  "str_int i = (if i < 0 then CHR ''-'' # str_nat (nat (- i)) else str_nat (nat i))"

text \<open>\<^verbatim>\<open>"%0wd" % n\<close> for a non-negative \<open>n\<close>: at least \<open>w\<close> digits, padded with zeros.\<close>

definition zero_pad :: "nat \<Rightarrow> nat \<Rightarrow> string" where
  "zero_pad w n = replicate (w - length (str_nat n)) CHR ''0'' @ str_nat n"

subsection \<open>\<^verbatim>\<open>datetime.datetime\<close> (naive)\<close>

record datetime =
  year :: nat
  month :: nat
  day :: nat
  hour :: nat
  minute :: nat
  second :: nat
  microsecond :: nat

text \<open>\<^verbatim>\<open>datetime.min\<close> is \<^verbatim>\<open>datetime(1, 1, 1, 0, 0)\<close>.\<close>

definition datetime_min :: datetime where
  "datetime_min = \<lparr>year = 1, month = 1, day = 1, hour = 0, minute = 0, second = 0, microsecond = 0\<rparr>"

definition is_leap :: "nat \<Rightarrow> bool" where
  "is_leap y = (y mod 4 = 0 \<and> (y mod 100 \<noteq> 0 \<or> y mod 400 = 0))"

definition days_in_month :: "nat \<Rightarrow> nat \<Rightarrow> nat" where
  "days_in_month y m =
     (if m = 2 then (if is_leap y then 29 else 28)
      else if m = 4 \<or> m = 6 \<or> m = 9 \<or> m = 11 then 30 else 31)"

text \<open>The range checks of the \<^verbatim>\<open>datetime\<close> constructor: every datetime object satisfies them.\<close>

definition valid_datetime :: "datetime \<Rightarrow> bool" where
  "valid_datetime d =
     (1 \<le> year d \<and> year d \<le> 9999 \<and> 1 \<le> month d \<and> month d \<le> 12 \<and>
      1 \<le> day d \<and> day d \<le> days_in_month (year d) (month d) \<and>
      hour d < 24 \<and> minute d < 60 \<and> second d < 60 \<and> microsecond d < 1000000)"

text \<open>Comparison of naive datetimes: lexicographic on the fields, most significant first.\<close>

fun lex_le :: "nat list \<Rightarrow> nat list \<Rightarrow> bool" where
  "lex_le [] ys = True"
| "lex_le (x # xs) [] = False"
| "lex_le (x # xs) (y # ys) = (x < y \<or> (x = y \<and> lex_le xs ys))"

definition dt_fields :: "datetime \<Rightarrow> nat list" where
  "dt_fields d = [year d, month d, day d, hour d, minute d, second d, microsecond d]"

definition dt_le :: "datetime \<Rightarrow> datetime \<Rightarrow> bool" where
  "dt_le a b = lex_le (dt_fields a) (dt_fields b)"

text \<open>
  \<^verbatim>\<open>datetime.isoformat()\<close> with the default separator and \<^verbatim>\<open>timespec='auto'\<close>:
  \<^verbatim>\<open>"%04d-%02d-%02dT%02d:%02d:%02d"\<close>, followed by \<^verbatim>\<open>".%06d"\<close> when the microsecond is not 0.
\<close>

definition isoformat :: "datetime \<Rightarrow> string" where
  "isoformat d =
     zero_pad 4 (year d) @ ''-'' @ zero_pad 2 (month d) @ ''-'' @ zero_pad 2 (day d) @ ''T'' @
     zero_pad 2 (hour d) @ '':'' @ zero_pad 2 (minute d) @ '':'' @ zero_pad 2 (second d) @
     (if microsecond d = 0 then [] else ''.'' @ zero_pad 6 (microsecond d))"

subsection \<open>List indexing\<close>

text \<open>\<^verbatim>\<open>xs[i]\<close> for an \<^verbatim>\<open>int\<close> index: a negative index counts from the end, an index out of
  range raises \<^verbatim>\<open>IndexError\<close>.\<close>

definition getitem :: "'a list \<Rightarrow> int \<Rightarrow> exn + 'a" where
  "getitem xs i =
     (if 0 \<le> i \<and> i < int (length xs) then Inr (xs ! nat i)
      else if i < 0 \<and> - int (length xs) \<le> i then Inr (xs ! nat (int (length xs) + i))
      else Inl IndexError)"

text \<open>\<^verbatim>\<open>xs[i] = v\<close> for the non-negative index that \<^verbatim>\<open>enumerate\<close> supplies.\<close>

definition setitem :: "'a list \<Rightarrow> nat \<Rightarrow> 'a \<Rightarrow> exn + 'a list" where
  "setitem xs i v = (if i < length xs then Inr (xs[i := v]) else Inl IndexError)"

section \<open>The monitor\<close>

subsection \<open>State\<close>

text \<open>
  \<^verbatim>\<open>URLMonitorData\<close>: the five lists of the object.  Its \<^verbatim>\<open>hass\<close> attribute is the
  enclosing \<open>world\<close> below.
\<close>

record URLMonitorData =
  names :: "string list"
  urls :: "string list"
  states :: "string list"
  status :: "string list"
  last_updated :: "datetime list"

text \<open>
  What a run of the component reads and changes: the monitor object stored in
  \<^verbatim>\<open>hass.data[DOMAIN]\<close>, the number of interval listeners that
  \<^verbatim>\<open>async_track_time_interval(hass, self.async_update, ...)\<close> has registered for
  \<^verbatim>\<open>async_update\<close> (a registration stays active until its remover is called, and the
  source drops every remover), and the URLs passed to \<^verbatim>\<open>session.get\<close> so far, in order.
\<close>

record world =
  self :: URLMonitorData
  listeners :: nat
  requests :: "string list"

text \<open>
  What the network, the event loop and the clock do during one call of
  \<^verbatim>\<open>session.get(url)\<close> and the statements that follow it in the loop body.
  A datetime is the value that \<^verbatim>\<open>datetime.now()\<close> returns when the body reaches it.
  \<^item> \<open>Responds c t\<close>: a response with status \<open>c\<close> arrives and is released.
  \<^item> \<open>RespondsThenCancelled c\<close>: a response with status \<open>c\<close> arrives, and the cycle-level
    timeout cancels the task while the response's context manager exits.
  \<^item> \<open>RaisesClientError msg t\<close>: an \<^verbatim>\<open>aiohttp.ClientError\<close> \<open>e\<close> with \<^verbatim>\<open>str(e) = msg\<close>.
  \<^item> \<open>RaisesTimeoutError t\<close>: an \<^verbatim>\<open>asyncio.TimeoutError\<close> that is not a \<^verbatim>\<open>ClientError\<close>.
  \<^item> \<open>RaisesCancelled\<close>: the cycle-level timeout cancels the task while it awaits the response.
  \<^item> \<open>RaisesOther msg\<close>: any other exception.
\<close>

datatype outcome =
    Responds int datetime
  | RespondsThenCancelled int
  | RaisesClientError string datetime
  | RaisesTimeoutError datetime
  | RaisesCancelled
  | RaisesOther string

text \<open>
  The environment of one check cycle: the outcome of the request at each position of the
  loop, and whether the cycle-level timeout cancels the task while the client session is
  closed after the loop.
\<close>

record env =
  probe :: "nat \<Rightarrow> string \<Rightarrow> outcome"
  close_cancelled :: bool

subsection \<open>Statements that can raise\<close>

text \<open>A statement maps the world to the exception it raised, if any, and the world it left.\<close>

type_synonym stmt_result = "exn option \<times> world"

definition and_then :: "stmt_result \<Rightarrow> (world \<Rightarrow> stmt_result) \<Rightarrow> stmt_result" where
  "and_then r f = (case r of (None, w) \<Rightarrow> f w | (Some x, w) \<Rightarrow> (Some x, w))"

text \<open>\<^verbatim>\<open>self.states[i] = v\<close>, \<^verbatim>\<open>self.status[i] = v\<close>, \<^verbatim>\<open>self.last_updated[i] = t\<close>.\<close>

definition set_states :: "nat \<Rightarrow> string \<Rightarrow> world \<Rightarrow> stmt_result" where
  "set_states i v w =
     (case setitem (states (self w)) i v of
        Inl x \<Rightarrow> (Some x, w)
      | Inr xs \<Rightarrow> (None, w\<lparr>self := (self w)\<lparr>states := xs\<rparr>\<rparr>))"

definition set_status :: "nat \<Rightarrow> string \<Rightarrow> world \<Rightarrow> stmt_result" where
  "set_status i v w =
     (case setitem (status (self w)) i v of
        Inl x \<Rightarrow> (Some x, w)
      | Inr xs \<Rightarrow> (None, w\<lparr>self := (self w)\<lparr>status := xs\<rparr>\<rparr>))"

definition set_last_updated :: "nat \<Rightarrow> datetime \<Rightarrow> world \<Rightarrow> stmt_result" where
  "set_last_updated i t w =
     (case setitem (last_updated (self w)) i t of
        Inl x \<Rightarrow> (Some x, w)
      | Inr xs \<Rightarrow> (None, w\<lparr>self := (self w)\<lparr>last_updated := xs\<rparr>\<rparr>))"

definition raise :: "exn \<Rightarrow> world \<Rightarrow> stmt_result" where
  "raise x w = (Some x, w)"

subsection \<open>\<^verbatim>\<open>URLMonitorData\<close>\<close>

text \<open>\<^verbatim>\<open>URLMonitorData.__init__\<close>.\<close>

definition init :: "string list \<Rightarrow> string list \<Rightarrow> URLMonitorData" where
  "init ns us =
     \<lparr>names = ns, urls = us,
      states = replicate (length us) ''Unknown'',
      status = replicate (length us) '''',
      last_updated = replicate (length us) datetime_min\<rparr>"

text \<open>
  The writes of the \<^verbatim>\<open>with\<close> block of \<^verbatim>\<open>_check_urls\<close> for a response with status \<open>c\<close>.
\<close>

definition record_response :: "nat \<Rightarrow> int \<Rightarrow> world \<Rightarrow> stmt_result" where
  "record_response i c w =
     (if c = 200
      then and_then (set_states i ''Online'' w) (set_status i ''OK'')
      else and_then (set_states i ''Offline'' w) (set_status i (''HTTP '' @ str_int c)))"

text \<open>
  One iteration of the loop of \<^verbatim>\<open>_check_urls\<close> at position \<open>i\<close> for \<open>url\<close>, given the
  outcome of the request: the \<^verbatim>\<open>try\<close> statement with its two handlers.  An exception that
  neither handler names, and an exception raised inside a handler, leaves the iteration.
\<close>

definition check_url :: "outcome \<Rightarrow> nat \<Rightarrow> string \<Rightarrow> world \<Rightarrow> stmt_result" where
  "check_url oc i url w =
     (let w1 = w\<lparr>requests := requests w @ [url]\<rparr> in
      case oc of
        Responds c t \<Rightarrow> and_then (record_response i c w1) (set_last_updated i t)
      | RespondsThenCancelled c \<Rightarrow> and_then (record_response i c w1) (raise CancelledError)
      | RaisesClientError msg t \<Rightarrow>
          and_then (and_then (set_states i ''Offline'' w1) (set_status i msg))
            (set_last_updated i t)
      | RaisesTimeoutError t \<Rightarrow>
          and_then (and_then (set_states i ''Offline'' w1) (set_status i ''Timeout''))
            (set_last_updated i t)
      | RaisesCancelled \<Rightarrow> raise CancelledError w1
      | RaisesOther msg \<Rightarrow> raise (OtherException msg) w1)"

text \<open>\<^verbatim>\<open>for i, url in enumerate(self.urls)\<close>, from position \<open>i\<close> on.\<close>

fun for_urls :: "env \<Rightarrow> nat \<Rightarrow> string list \<Rightarrow> world \<Rightarrow> stmt_result" where
  "for_urls e i [] w = (None, w)"
| "for_urls e i (url # rest) w =
     and_then (check_url (probe e i url) i url w) (for_urls e (Suc i) rest)"

text \<open>
  \<^verbatim>\<open>URLMonitorData._check_urls\<close>: the loop inside the client session, then the session's
  close.  The \<^verbatim>\<open>async with\<close> statement closes the session however the loop was left; a
  cancellation that arrives during the close replaces what the loop raised.
\<close>

definition check_urls :: "env \<Rightarrow> world \<Rightarrow> stmt_result" where
  "check_urls e w =
     (case for_urls e 0 (urls (self w)) w of
        (r, w') \<Rightarrow> if close_cancelled e then raise CancelledError w' else (r, w'))"

text \<open>
  \<^verbatim>\<open>URLMonitorData.async_update\<close>.  When the block under \<^verbatim>\<open>async_timeout.timeout(10)\<close> is
  left by the cancellation that the timeout caused, the context manager raises
  \<^verbatim>\<open>asyncio.TimeoutError\<close> in its place; any exception leaves \<^verbatim>\<open>async_update\<close> before the
  call of \<^verbatim>\<open>async_track_time_interval\<close>.
\<close>

definition async_update :: "env \<Rightarrow> world \<Rightarrow> stmt_result" where
  "async_update e w =
     (case check_urls e w of
        (None, w') \<Rightarrow> (None, w'\<lparr>listeners := Suc (listeners w')\<rparr>)
      | (Some CancelledError, w') \<Rightarrow> (Some AsyncTimeoutError, w')
      | (Some x, w') \<Rightarrow> (Some x, w'))"

subsection \<open>Setup and the event loop\<close>

definition DOMAIN :: string where
  "DOMAIN = ''my_url_monitor''"

text \<open>\<^verbatim>\<open>CONF_NAME\<close> and \<^verbatim>\<open>CONF_URL\<close> of \<^verbatim>\<open>homeassistant.const\<close>.\<close>

definition CONF_NAME :: string where
  "CONF_NAME = ''name''"

definition CONF_URL :: string where
  "CONF_URL = ''url''"

type_synonym config = "string \<rightharpoonup> (string \<rightharpoonup> string list)"

text \<open>
  \<^verbatim>\<open>async_setup\<close> on a fresh host: it looks the two lists up (a missing key raises
  \<^verbatim>\<open>KeyError\<close>), stores the monitor, creates the task of the first
  \<^verbatim>\<open>async_update\<close> and returns \<^verbatim>\<open>True\<close>.  The task itself runs next, in \<open>startup\<close>.
\<close>

definition async_setup :: "config \<Rightarrow> exn + (bool \<times> world)" where
  "async_setup cfg =
     (case cfg DOMAIN of
        None \<Rightarrow> Inl (KeyError DOMAIN)
      | Some c \<Rightarrow>
          (case c CONF_NAME of
             None \<Rightarrow> Inl (KeyError CONF_NAME)
           | Some ns \<Rightarrow>
               (case c CONF_URL of
                  None \<Rightarrow> Inl (KeyError CONF_URL)
                | Some us \<Rightarrow> Inr (True, \<lparr>self = init ns us, listeners = 0, requests = []\<rparr>))))"

text \<open>Setup followed by the task it created; the event loop logs what the task raises.\<close>

definition startup :: "config \<Rightarrow> env \<Rightarrow> exn + world" where
  "startup cfg e =
     (case async_setup cfg of
        Inl x \<Rightarrow> Inl x
      | Inr (ok, w) \<Rightarrow> Inr (snd (async_update e w)))"

text \<open>
  The host calls a registered interval listener with the time of the firing as argument.
  The listener that the source registers is the bound method \<^verbatim>\<open>self.async_update\<close>, which
  accepts no argument besides \<^verbatim>\<open>self\<close>: the call raises \<^verbatim>\<open>TypeError\<close> before the body of
  \<^verbatim>\<open>async_update\<close> runs.  It starts no cycle, whatever environment \<open>e\<close> it would have met.
\<close>

definition call_listener :: "env \<Rightarrow> world \<Rightarrow> stmt_result" where
  "call_listener e w = raise TypeError w"

text \<open>
  One firing of the hourly interval: the host calls each listener registered when the
  interval fires, one after the other, and logs what the call raises; \<open>es k\<close> is the
  environment of the \<open>k\<close>-th call.
\<close>

fun fire :: "(nat \<Rightarrow> env) \<Rightarrow> nat \<Rightarrow> world \<Rightarrow> world" where
  "fire es 0 w = w"
| "fire es (Suc k) w = snd (call_listener (es k) (fire es k w))"

definition tick :: "(nat \<Rightarrow> env) \<Rightarrow> world \<Rightarrow> world" where
  "tick es w = fire es (listeners w) w"

fun ticks :: "(nat \<Rightarrow> env) list \<Rightarrow> world \<Rightarrow> world" where
  "ticks [] w = w"
| "ticks (es # rest) w = ticks rest (tick es w)"

text \<open>A sequence of calls of \<^verbatim>\<open>async_update\<close>, one after the other.\<close>

fun cycles :: "env list \<Rightarrow> world \<Rightarrow> world" where
  "cycles [] w = w"
| "cycles (e # es) w = cycles es (snd (async_update e w))"

subsection \<open>\<^verbatim>\<open>URLMonitor\<close>\<close>

record URLMonitor =
  sensor_data :: URLMonitorData
  sensor_index :: int

definition name :: "URLMonitor \<Rightarrow> string" where
  "name s = ''URL Monitor '' @ str_int (sensor_index s + 1)"

definition state :: "URLMonitor \<Rightarrow> exn + string" where
  "state s = getitem (states (sensor_data s)) (sensor_index s)"

definition icon :: "URLMonitor \<Rightarrow> exn + string" where
  "icon s =
     (case getitem (states (sensor_data s)) (sensor_index s) of
        Inl x \<Rightarrow> Inl x
      | Inr v \<Rightarrow> Inr (if v = ''Online'' then ''mdi:link'' else ''mdi:link-off''))"

text \<open>The dictionary as the list of its items, in insertion order.\<close>

definition extra_state_attributes :: "URLMonitor \<Rightarrow> exn + (string \<times> string) list" where
  "extra_state_attributes s =
     (case getitem (urls (sensor_data s)) (sensor_index s) of
        Inl x \<Rightarrow> Inl x
      | Inr u \<Rightarrow>
          (case getitem (status (sensor_data s)) (sensor_index s) of
             Inl x \<Rightarrow> Inl x
           | Inr st \<Rightarrow>
               (case getitem (last_updated (sensor_data s)) (sensor_index s) of
                  Inl x \<Rightarrow> Inl x
                | Inr t \<Rightarrow> Inr [(''URL'', u), (''Status'', st), (''Last Updated'', isoformat t)])))"

definition sensors :: "URLMonitorData \<Rightarrow> URLMonitor list" where
  "sensors d = map (\<lambda>i. \<lparr>sensor_data = d, sensor_index = int i\<rparr>) [0..<length (urls d)]"

section \<open>Predicates on states and environments\<close>

text \<open>The three state lists have one entry per URL, as \<^verbatim>\<open>__init__\<close> builds them.\<close>

definition aligned :: "URLMonitorData \<Rightarrow> bool" where
  "aligned d =
     (length (states d) = length (urls d) \<and> length (status d) = length (urls d) \<and>
      length (last_updated d) = length (urls d))"

text \<open>The outcomes after which an iteration reaches \<^verbatim>\<open>datetime.now()\<close>: a completed check.\<close>

fun completes :: "outcome \<Rightarrow> bool" where
  "completes (Responds c t) = True"
| "completes (RaisesClientError msg t) = True"
| "completes (RaisesTimeoutError t) = True"
| "completes (RespondsThenCancelled c) = False"
| "completes RaisesCancelled = False"
| "completes (RaisesOther msg) = False"

text \<open>
  The values that \<^verbatim>\<open>datetime.now()\<close> returns during one cycle over \<open>us\<close> from position
  \<open>i\<close> on, in the order of the calls: the readings of the clock.
\<close>

fun readings :: "env \<Rightarrow> nat \<Rightarrow> string list \<Rightarrow> datetime list" where
  "readings e i [] = []"
| "readings e i (u # us) =
     (case probe e i u of
        Responds c t \<Rightarrow> t # readings e (Suc i) us
      | RaisesClientError msg t \<Rightarrow> t # readings e (Suc i) us
      | RaisesTimeoutError t \<Rightarrow> t # readings e (Suc i) us
      | RespondsThenCancelled c \<Rightarrow> []
      | RaisesCancelled \<Rightarrow> []
      | RaisesOther msg \<Rightarrow> [])"

text \<open>The readings of the clock during a sequence of cycles over \<open>us\<close>.\<close>

definition clock :: "env list \<Rightarrow> string list \<Rightarrow> datetime list" where
  "clock es us = concat (map (\<lambda>e. readings e 0 us) es)"

text \<open>
  An environment given by the list of its outcomes: the request at position \<open>i\<close> has the
  \<open>i\<close>-th outcome of the list, and the cycle-level timeout fires while the request after
  the last listed one is awaited.
\<close>

definition scripted :: "outcome list \<Rightarrow> env" where
  "scripted ocs =
     \<lparr>probe = (\<lambda>i u. if i < length ocs then ocs ! i else RaisesCancelled),
      close_cancelled = False\<rparr>"

section \<open>The module's top level\<close>

text \<open>
  What executing a top-level statement of the module does to the module's global names.
  \<^item> \<open>Import bs\<close>: an \<^verbatim>\<open>import\<close> or \<^verbatim>\<open>from ... import\<close> statement that binds the names \<open>bs\<close>
    (taken to succeed).
  \<^item> \<open>Assign x ls\<close>: \<^verbatim>\<open>x = <expression>\<close>, where evaluating the expression loads the
    names \<open>ls\<close> in this order.
  \<^item> \<open>Def x ls\<close>: a \<^verbatim>\<open>def\<close> or \<^verbatim>\<open>class\<close> statement binding \<open>x\<close>; the names \<open>ls\<close> (base
    classes, decorators, annotations) are loaded when the statement is executed, the
    function bodies are not.
\<close>

datatype stmt =
    Import "string list"
  | Assign string "string list"
  | Def string "string list"

text \<open>Loading names in order: the first one that is neither a global nor a builtin
  raises \<^verbatim>\<open>NameError\<close>.\<close>

fun load_names :: "string list \<Rightarrow> string list \<Rightarrow> string list \<Rightarrow> exn option" where
  "load_names builtins globals [] = None"
| "load_names builtins globals (x # xs) =
     (if x \<in> set globals \<or> x \<in> set builtins then load_names builtins globals xs
      else Some (NameError x))"

fun exec_module :: "string list \<Rightarrow> stmt list \<Rightarrow> string list \<Rightarrow> exn option \<times> string list" where
  "exec_module builtins [] globals = (None, globals)"
| "exec_module builtins (Import bs # rest) globals = exec_module builtins rest (globals @ bs)"
| "exec_module builtins (Assign x ls # rest) globals =
     (case load_names builtins globals ls of
        Some err \<Rightarrow> (Some err, globals)
      | None \<Rightarrow> exec_module builtins rest (globals @ [x]))"
| "exec_module builtins (Def x ls # rest) globals =
     (case load_names builtins globals ls of
        Some err \<Rightarrow> (Some err, globals)
      | None \<Rightarrow> exec_module builtins rest (globals @ [x]))"

text \<open>The names a module has before its first statement runs.\<close>

definition module_globals :: "string list" where
  "module_globals = [''__name__'', ''__doc__'', ''__package__'', ''__loader__'', ''__spec__'',
     ''__file__'', ''__builtins__'']"

text \<open>The top-level statements of \<^verbatim>\<open>src/__init__.py\<close>, lines 1 to 108.\<close>

definition module_body :: "stmt list" where
  "module_body =
    [Import [''asyncio''],
     Import [''logging''],
     Import [''datetime'', ''timedelta''],
     Import [''Any'', ''Callable'', ''Dict'', ''List'', ''Optional''],
     Import [''async_timeout''],
     Import [''aiohttp''],
     Import [''SensorEntity''],
     Import [''ConfigEntry''],
     Import [''CONF_NAME'', ''CONF_URL''],
     Import [''HomeAssistant''],
     Import [''async_track_time_interval''],
     Assign ''_LOGGER'' [''logging'', ''__name__''],
     Assign ''DOMAIN'' [],
     Assign ''CONFIG_SCHEMA''
       [''DOMAIN'', ''vol'', ''CONF_NAME'', ''vol'', ''cv'', ''cv'',
        ''vol'', ''CONF_URL'', ''vol'', ''cv'', ''cv''],
     Def ''async_setup'' [''HomeAssistant'', ''Dict'', ''str'', ''Any'', ''bool''],
     Def ''URLMonitor''
       [''SensorEntity'', ''int'', ''property'', ''str'', ''property'', ''str'', ''property'',
        ''str'', ''property'', ''Dict'', ''str'', ''Any''],
     Def ''URLMonitorData''
       [''HomeAssistant'', ''List'', ''str'', ''List'', ''str'', ''property'', ''List'',
        ''URLMonitor'']]"

section \<open>Basic facts\<close>

subsection \<open>Sequencing and the three assignments\<close>

lemma and_then_None [simp]: "and_then (None, w) f = f w"
  by (simp add: and_then_def)

lemma and_then_Some [simp]: "and_then (Some x, w) f = (Some x, w)"
  by (simp add: and_then_def)

lemma raise_simp [simp]: "raise x w = (Some x, w)"
  by (simp add: raise_def)

lemma set_states_ok:
  "i < length (states (self w)) \<Longrightarrow>
   set_states i v w = (None, w\<lparr>self := (self w)\<lparr>states := (states (self w))[i := v]\<rparr>\<rparr>)"
  by (simp add: set_states_def setitem_def)

lemma set_status_ok:
  "i < length (status (self w)) \<Longrightarrow>
   set_status i v w = (None, w\<lparr>self := (self w)\<lparr>status := (status (self w))[i := v]\<rparr>\<rparr>)"
  by (simp add: set_status_def setitem_def)

lemma set_last_updated_ok:
  "i < length (last_updated (self w)) \<Longrightarrow>
   set_last_updated i t w =
     (None, w\<lparr>self := (self w)\<lparr>last_updated := (last_updated (self w))[i := t]\<rparr>\<rparr>)"
  by (simp add: set_last_updated_def setitem_def)

lemma record_response_ok:
  "aligned (self w) \<Longrightarrow> i < length (urls (self w)) \<Longrightarrow>
   record_response i c w =
     (None, w\<lparr>self := (self w)\<lparr>
        states := (states (self w))[i := if c = 200 then ''Online'' else ''Offline''],
        status := (status (self w))[i := if c = 200 then ''OK'' else ''HTTP '' @ str_int c]\<rparr>\<rparr>)"
  by (simp add: record_response_def aligned_def set_states_ok set_status_ok)

subsection \<open>One iteration\<close>

lemma check_url_Responds:
  "aligned (self w) \<Longrightarrow> i < length (urls (self w)) \<Longrightarrow>
   check_url (Responds c t) i url w =
     (None, w\<lparr>requests := requests w @ [url],
        self := (self w)\<lparr>
          states := (states (self w))[i := if c = 200 then ''Online'' else ''Offline''],
          status := (status (self w))[i := if c = 200 then ''OK'' else ''HTTP '' @ str_int c],
          last_updated := (last_updated (self w))[i := t]\<rparr>\<rparr>)"
  by (simp add: check_url_def record_response_ok set_last_updated_ok aligned_def)

lemma check_url_RespondsThenCancelled:
  "aligned (self w) \<Longrightarrow> i < length (urls (self w)) \<Longrightarrow>
   check_url (RespondsThenCancelled c) i url w =
     (Some CancelledError, w\<lparr>requests := requests w @ [url],
        self := (self w)\<lparr>
          states := (states (self w))[i := if c = 200 then ''Online'' else ''Offline''],
          status := (status (self w))[i := if c = 200 then ''OK'' else ''HTTP '' @ str_int c]\<rparr>\<rparr>)"
  by (simp add: check_url_def record_response_ok aligned_def)

lemma check_url_RaisesClientError:
  "aligned (self w) \<Longrightarrow> i < length (urls (self w)) \<Longrightarrow>
   check_url (RaisesClientError msg t) i url w =
     (None, w\<lparr>requests := requests w @ [url],
        self := (self w)\<lparr>
          states := (states (self w))[i := ''Offline''],
          status := (status (self w))[i := msg],
          last_updated := (last_updated (self w))[i := t]\<rparr>\<rparr>)"
  by (simp add: check_url_def set_states_ok set_status_ok set_last_updated_ok aligned_def)

lemma check_url_RaisesTimeoutError:
  "aligned (self w) \<Longrightarrow> i < length (urls (self w)) \<Longrightarrow>
   check_url (RaisesTimeoutError t) i url w =
     (None, w\<lparr>requests := requests w @ [url],
        self := (self w)\<lparr>
          states := (states (self w))[i := ''Offline''],
          status := (status (self w))[i := ''Timeout''],
          last_updated := (last_updated (self w))[i := t]\<rparr>\<rparr>)"
  by (simp add: check_url_def set_states_ok set_status_ok set_last_updated_ok aligned_def)

lemma check_url_RaisesCancelled:
  "check_url RaisesCancelled i url w = (Some CancelledError, w\<lparr>requests := requests w @ [url]\<rparr>)"
  by (simp add: check_url_def)

lemma check_url_RaisesOther:
  "check_url (RaisesOther msg) i url w =
     (Some (OtherException msg), w\<lparr>requests := requests w @ [url]\<rparr>)"
  by (simp add: check_url_def)

lemmas check_url_cases =
  check_url_Responds check_url_RespondsThenCancelled check_url_RaisesClientError
  check_url_RaisesTimeoutError check_url_RaisesCancelled check_url_RaisesOther

lemma check_url_raises_iff:
  "aligned (self w) \<Longrightarrow> i < length (urls (self w)) \<Longrightarrow>
   (fst (check_url oc i url w) = None) = completes oc"
  by (cases oc) (simp_all add: check_url_cases)

lemma check_url_fixed:
  "aligned (self w) \<Longrightarrow> i < length (urls (self w)) \<Longrightarrow>
   urls (self (snd (check_url oc i url w))) = urls (self w) \<and>
   names (self (snd (check_url oc i url w))) = names (self w) \<and>
   listeners (snd (check_url oc i url w)) = listeners w \<and>
   requests (snd (check_url oc i url w)) = requests w @ [url] \<and>
   aligned (self (snd (check_url oc i url w)))"
  by (cases oc) (simp_all add: check_url_cases aligned_def)

lemma check_url_frame:
  "aligned (self w) \<Longrightarrow> i < length (urls (self w)) \<Longrightarrow> j \<noteq> i \<Longrightarrow>
   states (self (snd (check_url oc i url w))) ! j = states (self w) ! j \<and>
   status (self (snd (check_url oc i url w))) ! j = status (self w) ! j \<and>
   last_updated (self (snd (check_url oc i url w))) ! j = last_updated (self w) ! j"
  by (cases oc) (simp_all add: check_url_cases)

subsection \<open>The loop\<close>

lemma fst_and_then:
  "fst (and_then r f) = (case fst r of None \<Rightarrow> fst (f (snd r)) | Some x \<Rightarrow> Some x)"
  by (cases r) (simp add: and_then_def split: option.split)

lemma snd_and_then:
  "snd (and_then r f) = (case fst r of None \<Rightarrow> snd (f (snd r)) | Some x \<Rightarrow> snd r)"
  by (cases r) (simp add: and_then_def split: option.split)

lemma and_then_assoc:
  "and_then (and_then r f) g = and_then r (\<lambda>w. and_then (f w) g)"
  by (cases r) (simp add: and_then_def split: option.split)

lemma for_urls_append:
  "for_urls e i (xs @ ys) w = and_then (for_urls e i xs w) (for_urls e (i + length xs) ys)"
proof (induction xs arbitrary: i w)
  case Nil
  show ?case by simp
next
  case (Cons x xs)
  have "for_urls e (Suc i) (xs @ ys) =
        (\<lambda>w'. and_then (for_urls e (Suc i) xs w') (for_urls e (Suc i + length xs) ys))"
    by (rule ext) (simp add: Cons.IH)
  then show ?case
    by (simp add: and_then_assoc)
qed

text \<open>A property that every iteration keeps is kept by the loop.\<close>

lemma for_urls_keeps:
  assumes step: "\<And>j url v. I v \<Longrightarrow> j < n \<Longrightarrow> I (snd (check_url (probe e j url) j url v))"
    and "I w" and "i + length us \<le> n"
  shows "I (snd (for_urls e i us w))"
  using assms(2,3)
proof (induction us arbitrary: i w)
  case Nil
  then show ?case by simp
next
  case (Cons u us)
  have 1: "I (snd (check_url (probe e i u) i u w))"
    using step [of w i u] Cons.prems by simp
  have 2: "I (snd (for_urls e (Suc i) us (snd (check_url (probe e i u) i u w))))"
    using Cons.IH [OF 1] Cons.prems by simp
  show ?case
    using 1 2 by (simp add: snd_and_then split: option.split)
qed

text \<open>The loop keeps the lists aligned and changes neither the URLs, the names nor the
  listeners.\<close>

lemma for_urls_fixed:
  assumes "aligned (self w)" and "i + length us \<le> length (urls (self w))"
  shows "aligned (self (snd (for_urls e i us w))) \<and>
         urls (self (snd (for_urls e i us w))) = urls (self w) \<and>
         names (self (snd (for_urls e i us w))) = names (self w) \<and>
         listeners (snd (for_urls e i us w)) = listeners w"
proof -
  let ?I = "\<lambda>v::world. aligned (self v) \<and> urls (self v) = urls (self w) \<and>
                 names (self v) = names (self w) \<and> listeners v = listeners w"
  have "?I (snd (for_urls e i us w))"
  proof (rule for_urls_keeps [where I = ?I and n = "length (urls (self w))"])
    fix j url v
    assume "?I v" and "j < length (urls (self w))"
    then show "?I (snd (check_url (probe e j url) j url v))"
      using check_url_fixed [of v j "probe e j url" url] by simp
  next
    show "?I w" using assms by simp
  next
    show "i + length us \<le> length (urls (self w))" using assms by simp
  qed
  then show ?thesis by simp
qed

text \<open>The loop over positions \<open>i\<close> to \<open>i + length us - 1\<close> writes to no other position.\<close>

lemma for_urls_frame:
  assumes "aligned (self w)" and "i + length us \<le> length (urls (self w))"
    and "j < i \<or> i + length us \<le> j"
  shows "states (self (snd (for_urls e i us w))) ! j = states (self w) ! j \<and>
         status (self (snd (for_urls e i us w))) ! j = status (self w) ! j \<and>
         last_updated (self (snd (for_urls e i us w))) ! j = last_updated (self w) ! j"
  using assms
proof (induction us arbitrary: i w)
  case Nil
  then show ?case by simp
next
  case (Cons u us)
  let ?v = "snd (check_url (probe e i u) i u w)"
  have i: "i < length (urls (self w))" using Cons.prems by simp
  have fx: "aligned (self ?v)" "urls (self ?v) = urls (self w)"
    using check_url_fixed [OF Cons.prems(1) i] by simp_all
  have ne: "j \<noteq> i" using Cons.prems(3) by auto
  have fr: "states (self ?v) ! j = states (self w) ! j \<and>
            status (self ?v) ! j = status (self w) ! j \<and>
            last_updated (self ?v) ! j = last_updated (self w) ! j"
    using check_url_frame [OF Cons.prems(1) i ne] by simp
  have "states (self (snd (for_urls e (Suc i) us ?v))) ! j = states (self ?v) ! j \<and>
        status (self (snd (for_urls e (Suc i) us ?v))) ! j = status (self ?v) ! j \<and>
        last_updated (self (snd (for_urls e (Suc i) us ?v))) ! j = last_updated (self ?v) ! j"
    using Cons.IH [of ?v "Suc i"] fx Cons.prems by auto
  then show ?case
    using fr by (simp add: snd_and_then split: option.split)
qed

text \<open>When every request of the loop completes, the loop raises nothing and has requested
  every URL, in order.\<close>

lemma for_urls_all_complete:
  assumes "aligned (self w)" and "i + length us \<le> length (urls (self w))"
    and "\<forall>j < length us. completes (probe e (i + j) (us ! j))"
  shows "fst (for_urls e i us w) = None \<and>
         requests (snd (for_urls e i us w)) = requests w @ us"
  using assms
proof (induction us arbitrary: i w)
  case Nil
  then show ?case by simp
next
  case (Cons u us)
  let ?r = "check_url (probe e i u) i u w"
  have i: "i < length (urls (self w))" using Cons.prems by simp
  have c: "completes (probe e i u)" using Cons.prems(3) by fastforce
  have r: "fst ?r = None"
    using check_url_raises_iff [OF Cons.prems(1) i] c by simp
  have fx: "aligned (self (snd ?r))" "urls (self (snd ?r)) = urls (self w)"
    "requests (snd ?r) = requests w @ [u]"
    using check_url_fixed [OF Cons.prems(1) i] by simp_all
  have "\<forall>j < length us. completes (probe e (Suc i + j) (us ! j))"
    using Cons.prems(3) by fastforce
  then have "fst (for_urls e (Suc i) us (snd ?r)) = None \<and>
        requests (snd (for_urls e (Suc i) us (snd ?r))) = requests (snd ?r) @ us"
    using Cons.IH [of "snd ?r" "Suc i"] fx Cons.prems by simp
  then show ?case
    using r fx by (simp add: fst_and_then snd_and_then)
qed

text \<open>When the first \<open>k\<close> requests complete and the next one does not, the loop ends in the
  iteration at position \<open>k\<close>, run after the first \<open>k\<close> iterations.\<close>

lemma for_urls_stops:
  assumes "aligned (self w)" and "length us \<le> length (urls (self w))"
    and "k < length us"
    and "\<forall>j < k. completes (probe e j (us ! j))"
    and "\<not> completes (probe e k (us ! k))"
  shows "for_urls e 0 us w =
         check_url (probe e k (us ! k)) k (us ! k) (snd (for_urls e 0 (take k us) w))"
proof -
  let ?v = "snd (for_urls e 0 (take k us) w)"
  have split: "us = take k us @ (us ! k # drop (Suc k) us)"
    using assms(3) by (simp add: id_take_nth_drop [symmetric])
  have pre: "fst (for_urls e 0 (take k us) w) = None"
    using for_urls_all_complete [of w 0 "take k us" e] assms by simp
  have fx: "aligned (self ?v)" "urls (self ?v) = urls (self w)"
    using for_urls_fixed [of w 0 "take k us" e] assms by simp_all
  have stop: "fst (check_url (probe e k (us ! k)) k (us ! k) ?v) \<noteq> None"
    using check_url_raises_iff [of ?v k "probe e k (us ! k)" "us ! k"] fx assms by simp
  have "for_urls e 0 us w =
        and_then (for_urls e 0 (take k us) w)
          (for_urls e (0 + length (take k us)) (us ! k # drop (Suc k) us))"
    using for_urls_append [of e 0 "take k us" "us ! k # drop (Suc k) us" w] split by simp
  also have "\<dots> = for_urls e k (us ! k # drop (Suc k) us) ?v"
    using pre assms(3) by (cases "for_urls e 0 (take k us) w") (simp add: min_def)
  also have "\<dots> = check_url (probe e k (us ! k)) k (us ! k) ?v"
    using stop by (cases "check_url (probe e k (us ! k)) k (us ! k) ?v") auto
  finally show ?thesis .
qed

subsection \<open>A cycle\<close>

lemma snd_check_urls: "snd (check_urls e w) = snd (for_urls e 0 (urls (self w)) w)"
  by (simp add: check_urls_def split: prod.split)

lemma fst_check_urls:
  "fst (check_urls e w) =
     (if close_cancelled e then Some CancelledError
      else fst (for_urls e 0 (urls (self w)) w))"
  by (simp add: check_urls_def split: prod.split)

lemma fst_async_update:
  "fst (async_update e w) =
     (case fst (check_urls e w) of
        None \<Rightarrow> None
      | Some x \<Rightarrow> Some (if x = CancelledError then AsyncTimeoutError else x))"
  by (cases "check_urls e w") (auto simp: async_update_def split: option.split exn.split)

lemma self_async_update:
  "self (snd (async_update e w)) = self (snd (for_urls e 0 (urls (self w)) w))"
  by (cases "check_urls e w")
    (auto simp: async_update_def snd_check_urls [symmetric] split: option.split exn.split)

lemma requests_async_update:
  "requests (snd (async_update e w)) = requests (snd (for_urls e 0 (urls (self w)) w))"
  by (cases "check_urls e w")
    (auto simp: async_update_def snd_check_urls [symmetric] split: option.split exn.split)

lemma listeners_async_update:
  "listeners (snd (async_update e w)) =
     (if fst (async_update e w) = None then Suc (listeners (snd (check_urls e w)))
      else listeners (snd (check_urls e w)))"
  by (cases "check_urls e w") (auto simp: async_update_def split: option.split exn.split)

text \<open>The loop only appends to the list of requests.\<close>

lemma for_urls_requests_grow:
  assumes "aligned (self w)" and "i + length us \<le> length (urls (self w))"
  shows "\<exists>rest. requests (snd (for_urls e i us w)) = requests w @ rest"
proof -
  let ?I = "\<lambda>v::world. aligned (self v) \<and> urls (self v) = urls (self w) \<and>
                 (\<exists>rest. requests v = requests w @ rest)"
  have "?I (snd (for_urls e i us w))"
  proof (rule for_urls_keeps [where I = ?I and n = "length (urls (self w))"])
    fix j url v
    assume "?I v" and "j < length (urls (self w))"
    then show "?I (snd (check_url (probe e j url) j url v))"
      using check_url_fixed [of v j "probe e j url" url] by auto
  next
    show "?I w" using assms by simp
  next
    show "i + length us \<le> length (urls (self w))" using assms by simp
  qed
  then show ?thesis by simp
qed

text \<open>When the requests before position \<open>j\<close> complete, the loop requests the first \<open>j + 1\<close>
  URLs, in order, before anything else.\<close>

lemma for_urls_reaches:
  assumes "aligned (self w)" and "length us \<le> length (urls (self w))" and "j < length us"
    and "\<forall>p < j. completes (probe e p (us ! p))"
  shows "\<exists>rest. requests (snd (for_urls e 0 us w)) = requests w @ take (Suc j) us @ rest"
proof -
  let ?v = "snd (for_urls e 0 (take j us) w)"
  let ?r = "check_url (probe e j (us ! j)) j (us ! j) ?v"
  have split: "us = take j us @ (us ! j # drop (Suc j) us)"
    using assms(3) by (simp add: id_take_nth_drop [symmetric])
  have pre: "fst (for_urls e 0 (take j us) w) = None"
    "requests ?v = requests w @ take j us"
    using for_urls_all_complete [of w 0 "take j us" e] assms by simp_all
  have fx: "aligned (self ?v)" "urls (self ?v) = urls (self w)"
    using for_urls_fixed [of w 0 "take j us" e] assms by simp_all
  have j: "j < length (urls (self ?v))" using fx assms by simp
  have rfx: "aligned (self (snd ?r))" "urls (self (snd ?r)) = urls (self w)"
    "requests (snd ?r) = requests w @ take (Suc j) us"
    using check_url_fixed [OF fx(1) j, of "probe e j (us ! j)" "us ! j"] fx pre assms(3)
    by (simp_all add: take_Suc_conv_app_nth)
  have "for_urls e 0 us w =
        and_then (for_urls e 0 (take j us) w)
          (for_urls e (0 + length (take j us)) (us ! j # drop (Suc j) us))"
    using for_urls_append [of e 0 "take j us" "us ! j # drop (Suc j) us" w] split by simp
  also have "\<dots> = for_urls e j (us ! j # drop (Suc j) us) ?v"
    using pre assms(3) by (cases "for_urls e 0 (take j us) w") (simp add: min_def)
  finally have eq: "for_urls e 0 us w = and_then ?r (for_urls e (Suc j) (drop (Suc j) us))"
    by simp
  show ?thesis
  proof (cases "fst ?r")
    case None
    have "\<exists>rest. requests (snd (for_urls e (Suc j) (drop (Suc j) us) (snd ?r))) =
            requests (snd ?r) @ rest"
      using for_urls_requests_grow [of "snd ?r" "Suc j" "drop (Suc j) us" e] rfx assms
      by simp
    then show ?thesis
      using None eq rfx by (simp add: snd_and_then)
  next
    case (Some x)
    then show ?thesis
      using eq rfx by (simp add: snd_and_then)
  qed
qed

subsection \<open>The schedule\<close>

lemma ticks_without_listeners: "listeners w = 0 \<Longrightarrow> ticks ess w = w"
  by (induction ess) (simp_all add: tick_def)

text \<open>No firing of the interval starts a cycle.\<close>

lemma fire_starts_no_cycle: "fire es k w = w"
  by (induction k) (simp_all add: call_listener_def)

lemma ticks_start_no_cycle: "ticks ess w = w"
  by (induction ess) (simp_all add: tick_def fire_starts_no_cycle)

text \<open>A call of \<^verbatim>\<open>async_update\<close> removes no listener, whatever it raises.\<close>

lemma async_update_keeps_listeners:
  assumes "aligned (self w)"
  shows "listeners w \<le> listeners (snd (async_update e w))"
  using for_urls_fixed [of w 0 "urls (self w)" e] assms
  by (simp add: listeners_async_update snd_check_urls)

subsection \<open>Properties kept by every cycle\<close>

lemma async_update_keeps:
  assumes "\<And>j url v. I (self v) \<Longrightarrow> j < n \<Longrightarrow> I (self (snd (check_url (probe e j url) j url v)))"
    and "I (self w)" and "length (urls (self w)) \<le> n"
  shows "I (self (snd (async_update e w)))"
  using for_urls_keeps [where I = "\<lambda>v. I (self v)" and n = n and e = e and w = w and i = 0
      and us = "urls (self w)"] assms
  by (simp add: self_async_update)

lemma cycles_keeps:
  assumes "\<forall>e \<in> set es. \<forall>v. I (self v) \<longrightarrow> I (self (snd (async_update e v)))"
    and "I (self w)"
  shows "I (self (cycles es w))"
  using assms by (induction es arbitrary: w) simp_all

lemma cycles_append: "cycles (xs @ ys) w = cycles ys (cycles xs w)"
  by (induction xs arbitrary: w) simp_all

lemma init_aligned: "aligned (init ns us)"
  by (simp add: aligned_def init_def)

text \<open>State \<open>Online\<close> is only ever written together with status \<open>OK\<close>.\<close>

lemma check_url_online_ok:
  assumes "aligned (self w)" and "i < length (urls (self w))"
    and "\<forall>j < length (urls (self w)). states (self w) ! j = ''Online'' \<longrightarrow> status (self w) ! j = ''OK''"
  shows "\<forall>j < length (urls (self w)).
           states (self (snd (check_url oc i url w))) ! j = ''Online'' \<longrightarrow>
           status (self (snd (check_url oc i url w))) ! j = ''OK''"
  using assms by (cases oc) (simp_all add: check_url_cases aligned_def nth_list_update)

text \<open>Status \<open>OK\<close> is written with a state other than \<open>Online\<close> only for a client error
  whose description is \<open>OK\<close>.\<close>

lemma check_url_ok_online:
  assumes "aligned (self w)" and "i < length (urls (self w))"
    and "\<forall>t. oc \<noteq> RaisesClientError ''OK'' t"
    and "\<forall>j < length (urls (self w)). status (self w) ! j = ''OK'' \<longrightarrow> states (self w) ! j = ''Online''"
  shows "\<forall>j < length (urls (self w)).
           status (self (snd (check_url oc i url w))) ! j = ''OK'' \<longrightarrow>
           states (self (snd (check_url oc i url w))) ! j = ''Online''"
  using assms by (cases oc) (simp_all add: check_url_cases aligned_def nth_list_update)

subsection \<open>Order of datetimes\<close>

lemma lex_le_refl: "lex_le xs xs"
  by (induction xs) simp_all

lemma lex_le_trans: "lex_le xs ys \<Longrightarrow> lex_le ys zs \<Longrightarrow> lex_le xs zs"
proof (induction xs ys arbitrary: zs rule: lex_le.induct)
  case (1 ys)
  show ?case by simp
next
  case (2 x xs)
  then show ?case by simp
next
  case (3 x xs y ys)
  then show ?case by (cases zs) auto
qed

lemma dt_le_refl: "dt_le a a"
  by (simp add: dt_le_def lex_le_refl)

lemma dt_le_trans: "dt_le a b \<Longrightarrow> dt_le b c \<Longrightarrow> dt_le a c"
  unfolding dt_le_def by (rule lex_le_trans)

lemma dt_le_min: "valid_datetime t \<Longrightarrow> dt_le datetime_min t"
  by (auto simp: dt_le_def dt_fields_def datetime_min_def valid_datetime_def)

subsection \<open>Timestamps and the clock\<close>

lemma clock_Cons: "clock (e # es) us = readings e 0 us @ clock es us"
  by (simp add: clock_def)

lemma clock_append: "clock (xs @ ys) us = clock xs us @ clock ys us"
  by (simp add: clock_def)

text \<open>After the loop, a timestamp is the one stored before or a reading of the clock made
  during the loop.\<close>

lemma for_urls_last_updated:
  assumes "aligned (self w)" and "i + length us \<le> length (urls (self w))"
    and "j < length (urls (self w))"
  shows "last_updated (self (snd (for_urls e i us w))) ! j = last_updated (self w) ! j \<or>
         last_updated (self (snd (for_urls e i us w))) ! j \<in> set (readings e i us)"
  using assms
proof (induction us arbitrary: i w)
  case Nil
  show ?case by simp
next
  case (Cons u us)
  let ?r = "check_url (probe e i u) i u w"
  have i: "i < length (urls (self w))" using Cons.prems by simp
  have fx: "aligned (self (snd ?r))" "urls (self (snd ?r)) = urls (self w)"
    using check_url_fixed [OF Cons.prems(1) i] by simp_all
  have IH: "last_updated (self (snd (for_urls e (Suc i) us (snd ?r)))) ! j =
              last_updated (self (snd ?r)) ! j \<or>
            last_updated (self (snd (for_urls e (Suc i) us (snd ?r)))) ! j
              \<in> set (readings e (Suc i) us)"
    using Cons.IH [of "snd ?r" "Suc i"] fx Cons.prems by simp
  have len: "j < length (last_updated (self w))" "i < length (last_updated (self w))"
    using Cons.prems i by (simp_all add: aligned_def)
  show ?case
  proof (cases "probe e i u")
    case (Responds c t)
    then show ?thesis
      using IH len check_url_Responds [OF Cons.prems(1) i, of c t u]
      by (auto simp: nth_list_update)
  next
    case (RespondsThenCancelled c)
    then show ?thesis
      using check_url_RespondsThenCancelled [OF Cons.prems(1) i, of c u] by simp
  next
    case (RaisesClientError msg t)
    then show ?thesis
      using IH len check_url_RaisesClientError [OF Cons.prems(1) i, of msg t u]
      by (auto simp: nth_list_update)
  next
    case (RaisesTimeoutError t)
    then show ?thesis
      using IH len check_url_RaisesTimeoutError [OF Cons.prems(1) i, of t u]
      by (auto simp: nth_list_update)
  next
    case RaisesCancelled
    then show ?thesis by (simp add: check_url_RaisesCancelled)
  next
    case (RaisesOther msg)
    then show ?thesis by (simp add: check_url_RaisesOther)
  qed
qed

text \<open>
  One cycle under a clock that does not run backwards: when no stored timestamp is later
  than a reading of this cycle or a later reading \<open>c\<close>, the cycle moves no timestamp
  backwards, and no timestamp it leaves is later than a later reading.
\<close>

lemma async_update_clock:
  assumes "aligned (self w)" and "urls (self w) = us"
    and "sorted_wrt dt_le (readings e 0 us @ c)"
    and "\<forall>j < length us. \<forall>r \<in> set (readings e 0 us @ c). dt_le (last_updated (self w) ! j) r"
  shows "aligned (self (snd (async_update e w))) \<and>
         urls (self (snd (async_update e w))) = us \<and>
         (\<forall>j < length us.
            dt_le (last_updated (self w) ! j) (last_updated (self (snd (async_update e w))) ! j)) \<and>
         (\<forall>j < length us. \<forall>r \<in> set c.
            dt_le (last_updated (self (snd (async_update e w))) ! j) r)"
proof -
  let ?v = "snd (for_urls e 0 us w)"
  have self: "self (snd (async_update e w)) = self ?v"
    using assms(2) by (simp add: self_async_update)
  have fx: "aligned (self ?v)" "urls (self ?v) = us"
    using for_urls_fixed [of w 0 us e] assms by simp_all
  have cross: "\<forall>x \<in> set (readings e 0 us). \<forall>y \<in> set c. dt_le x y"
    using assms(3) by (simp add: sorted_wrt_append)
  have "dt_le (last_updated (self w) ! j) (last_updated (self ?v) ! j) \<and>
        (\<forall>r \<in> set c. dt_le (last_updated (self ?v) ! j) r)" if j: "j < length us" for j
  proof -
    have "last_updated (self ?v) ! j = last_updated (self w) ! j \<or>
          last_updated (self ?v) ! j \<in> set (readings e 0 us)"
      using for_urls_last_updated [of w 0 us j e] assms j by simp
    then show ?thesis
    proof
      assume "last_updated (self ?v) ! j = last_updated (self w) ! j"
      then show ?thesis using assms(4) j by (simp add: dt_le_refl)
    next
      assume "last_updated (self ?v) ! j \<in> set (readings e 0 us)"
      then show ?thesis using assms(4) j cross by simp
    qed
  qed
  then show ?thesis
    using self fx by simp
qed

lemma cycles_clock:
  assumes "aligned (self w)" and "urls (self w) = us"
    and "sorted_wrt dt_le (clock es us @ c)"
    and "\<forall>j < length us. \<forall>r \<in> set (clock es us @ c). dt_le (last_updated (self w) ! j) r"
  shows "aligned (self (cycles es w)) \<and>
         urls (self (cycles es w)) = us \<and>
         (\<forall>j < length us.
            dt_le (last_updated (self w) ! j) (last_updated (self (cycles es w)) ! j)) \<and>
         (\<forall>j < length us. \<forall>r \<in> set c. dt_le (last_updated (self (cycles es w)) ! j) r)"
  using assms
proof (induction es arbitrary: w)
  case Nil
  then show ?case by (simp add: clock_def dt_le_refl)
next
  case (Cons e es)
  let ?v = "snd (async_update e w)"
  have one: "aligned (self ?v) \<and> urls (self ?v) = us \<and>
     (\<forall>j < length us. dt_le (last_updated (self w) ! j) (last_updated (self ?v) ! j)) \<and>
     (\<forall>j < length us. \<forall>r \<in> set (clock es us @ c). dt_le (last_updated (self ?v) ! j) r)"
    using async_update_clock [of w us e "clock es us @ c"] Cons.prems
    by (simp add: clock_Cons)
  have sorted: "sorted_wrt dt_le (clock es us @ c)"
    using Cons.prems(3) by (simp add: clock_Cons sorted_wrt_append)
  have rest: "aligned (self (cycles es ?v)) \<and> urls (self (cycles es ?v)) = us \<and>
     (\<forall>j < length us. dt_le (last_updated (self ?v) ! j) (last_updated (self (cycles es ?v)) ! j)) \<and>
     (\<forall>j < length us. \<forall>r \<in> set c. dt_le (last_updated (self (cycles es ?v)) ! j) r)"
    using Cons.IH [of ?v] one sorted by simp
  show ?case
    using one rest by (auto intro: dt_le_trans)
qed

subsection \<open>Rendering of datetimes\<close>

lemma str_nat_1: "n < 10 \<Longrightarrow> str_nat n = [digit_char n]"
  by (subst str_nat.simps) simp

lemma str_nat_2:
  "10 \<le> n \<Longrightarrow> n < 100 \<Longrightarrow> str_nat n = [digit_char (n div 10), digit_char (n mod 10)]"
  by (subst str_nat.simps) (simp add: str_nat_1)

lemma str_nat_3:
  "100 \<le> n \<Longrightarrow> n < 1000 \<Longrightarrow>
   str_nat n = [digit_char (n div 100), digit_char (n div 10 mod 10), digit_char (n mod 10)]"
  by (subst str_nat.simps) (simp add: str_nat_2 div_mult2_eq [symmetric])

lemma str_nat_4:
  "1000 \<le> n \<Longrightarrow> n < 10000 \<Longrightarrow>
   str_nat n = [digit_char (n div 1000), digit_char (n div 100 mod 10),
                digit_char (n div 10 mod 10), digit_char (n mod 10)]"
  by (subst str_nat.simps) (simp add: str_nat_3 div_mult2_eq [symmetric])

lemma digit_char_0: "digit_char 0 = CHR ''0''"
  by (simp add: digit_char_def)

lemma zero_pad_2:
  assumes "n < 100"
  shows "zero_pad 2 n = [digit_char (n div 10), digit_char (n mod 10)]"
proof (cases "n < 10")
  case True
  then show ?thesis
    by (simp add: zero_pad_def str_nat_1 digit_char_0)
next
  case False
  then show ?thesis
    using assms by (simp add: zero_pad_def str_nat_2)
qed

lemma zero_pad_4:
  assumes "n < 10000"
  shows "zero_pad 4 n = [digit_char (n div 1000), digit_char (n div 100 mod 10),
                         digit_char (n div 10 mod 10), digit_char (n mod 10)]"
proof -
  consider "n < 10" | "10 \<le> n" "n < 100" | "100 \<le> n" "n < 1000" | "1000 \<le> n"
    by linarith
  then show ?thesis
  proof cases
    case 1
    then show ?thesis
      by (simp add: zero_pad_def str_nat_1 digit_char_0 numeral_3_eq_3)
  next
    case 2
    then show ?thesis
      by (simp add: zero_pad_def str_nat_2 digit_char_0 numeral_2_eq_2)
  next
    case 3
    then show ?thesis
      by (simp add: zero_pad_def str_nat_3 digit_char_0)
  next
    case 4
    then show ?thesis
      using assms by (simp add: zero_pad_def str_nat_4)
  qed
qed

lemma digit_char_cases:
  assumes "(a::nat) < 10"
  shows "a = 0 \<or> a = 1 \<or> a = 2 \<or> a = 3 \<or> a = 4 \<or> a = 5 \<or> a = 6 \<or> a = 7 \<or> a = 8 \<or> a = 9"
  using assms by arith

lemma digit_char_eq_0: "a < 10 \<Longrightarrow> digit_char a = CHR ''0'' \<Longrightarrow> a = 0"
  using digit_char_cases [of a] by (auto simp: digit_char_def)

lemma digit_char_eq_1: "a < 10 \<Longrightarrow> digit_char a = CHR ''1'' \<Longrightarrow> a = 1"
  using digit_char_cases [of a] by (auto simp: digit_char_def)

lemma two_digits_00:
  assumes "n < 100" and "digit_char (n div 10) = CHR ''0''" and "digit_char (n mod 10) = CHR ''0''"
  shows "n = 0"
proof -
  have "n div 10 = 0" using assms(1,2) by (intro digit_char_eq_0) simp_all
  moreover have "n mod 10 = 0" using assms(3) by (intro digit_char_eq_0) simp_all
  ultimately show ?thesis by presburger
qed

lemma two_digits_01:
  assumes "n < 100" and "digit_char (n div 10) = CHR ''0''" and "digit_char (n mod 10) = CHR ''1''"
  shows "n = 1"
proof -
  have "n div 10 = 0" using assms(1,2) by (intro digit_char_eq_0) simp_all
  moreover have "n mod 10 = 1" using assms(3) by (intro digit_char_eq_1) simp_all
  ultimately show ?thesis by presburger
qed

lemma four_digits_0001:
  assumes "n < 10000" and "digit_char (n div 1000) = CHR ''0''"
    and "digit_char (n div 100 mod 10) = CHR ''0''"
    and "digit_char (n div 10 mod 10) = CHR ''0''" and "digit_char (n mod 10) = CHR ''1''"
  shows "n = 1"
proof -
  have d3: "n div 1000 = 0" using assms(1,2) by (intro digit_char_eq_0) simp_all
  have d2: "n div 100 mod 10 = 0" using assms(3) by (intro digit_char_eq_0) simp_all
  have d1: "n div 10 mod 10 = 0" using assms(4) by (intro digit_char_eq_0) simp_all
  have d0: "n mod 10 = 1" using assms(5) by (intro digit_char_eq_1) simp_all
  have "n < 1000" using d3 by (simp add: div_eq_0_iff)
  then have "n div 100 < 10" by simp
  then have "n div 100 = 0" using d2 by simp
  then have "n < 100" by (simp add: div_eq_0_iff)
  then have "n div 10 < 10" by simp
  then have "n div 10 = 0" using d1 by simp
  then have "n < 10" by (simp add: div_eq_0_iff)
  then show ?thesis using d0 by simp
qed

lemma isoformat_datetime_min: "isoformat datetime_min = ''0001-01-01T00:00:00''"
  by (simp add: isoformat_def datetime_min_def zero_pad_2 zero_pad_4 digit_char_def)

text \<open>Only \<^verbatim>\<open>datetime.min\<close> is rendered as \<^verbatim>\<open>0001-01-01T00:00:00\<close>.\<close>

lemma isoformat_eq_min:
  assumes "valid_datetime t" and "isoformat t = ''0001-01-01T00:00:00''"
  shows "t = datetime_min"
proof -
  have b: "year t < 10000" "month t < 100" "day t < 100" "hour t < 100" "minute t < 100"
    "second t < 100"
    using assms(1) by (auto simp: valid_datetime_def days_in_month_def split: if_splits)
  have eq: "zero_pad 4 (year t) = ''0001'' \<and> zero_pad 2 (month t) = ''01'' \<and>
    zero_pad 2 (day t) = ''01'' \<and> zero_pad 2 (hour t) = ''00'' \<and>
    zero_pad 2 (minute t) = ''00'' \<and> zero_pad 2 (second t) = ''00'' \<and> microsecond t = 0"
    using assms(2) b
    by (simp add: isoformat_def zero_pad_2 zero_pad_4 split: if_splits)
  have "year t = 1"
    using eq b by (intro four_digits_0001) (simp_all add: zero_pad_4)
  moreover have "month t = 1"
    using eq b by (intro two_digits_01) (simp_all add: zero_pad_2)
  moreover have "day t = 1"
    using eq b by (intro two_digits_01) (simp_all add: zero_pad_2)
  moreover have "hour t = 0"
    using eq b by (intro two_digits_00) (simp_all add: zero_pad_2)
  moreover have "minute t = 0"
    using eq b by (intro two_digits_00) (simp_all add: zero_pad_2)
  moreover have "second t = 0"
    using eq b by (intro two_digits_00) (simp_all add: zero_pad_2)
  ultimately show ?thesis
    using eq by (cases t) (simp add: datetime_min_def)
qed

subsection \<open>Reading a position of the monitor\<close>

lemma getitem_nat: "i < length xs \<Longrightarrow> getitem xs (int i) = Inr (xs ! i)"
  by (simp add: getitem_def)

lemma check_url_not_completed:
  assumes "aligned (self w)" and "i < length (urls (self w))" and "\<not> completes oc"
  shows "last_updated (self (snd (check_url oc i url w))) = last_updated (self w) \<and>
         fst (check_url oc i url w) \<noteq> None"
  using assms by (cases oc) (simp_all add: check_url_cases)

text \<open>A loop in which the request at position \<open>j\<close> does not complete leaves the timestamp
  at position \<open>j\<close> as it is.\<close>

lemma for_urls_not_completed:
  assumes "aligned (self w)" and "i + length us \<le> length (urls (self w))"
    and "\<forall>p < length us. i + p = j \<longrightarrow> \<not> completes (probe e j (us ! p))"
  shows "last_updated (self (snd (for_urls e i us w))) ! j = last_updated (self w) ! j"
  using assms
proof (induction us arbitrary: i w)
  case Nil
  show ?case by simp
next
  case (Cons u us)
  let ?r = "check_url (probe e i u) i u w"
  have i: "i < length (urls (self w))" using Cons.prems by simp
  have fx: "aligned (self (snd ?r))" "urls (self (snd ?r)) = urls (self w)"
    using check_url_fixed [OF Cons.prems(1) i] by simp_all
  show ?case
  proof (cases "i = j")
    case True
    then have "\<not> completes (probe e i u)" using Cons.prems(3) by auto
    then show ?thesis
      using check_url_not_completed [OF Cons.prems(1) i, of "probe e i u" u] True
      by (auto simp: snd_and_then split: option.split)
  next
    case False
    have here: "last_updated (self (snd ?r)) ! j = last_updated (self w) ! j"
      using check_url_frame [OF Cons.prems(1) i, of j "probe e i u" u] False by simp
    have "\<forall>p < length us. Suc i + p = j \<longrightarrow> \<not> completes (probe e j (us ! p))"
      using Cons.prems(3) by fastforce
    then have "last_updated (self (snd (for_urls e (Suc i) us (snd ?r)))) ! j =
          last_updated (self (snd ?r)) ! j"
      using Cons.IH [of "snd ?r" "Suc i"] fx Cons.prems by simp
    then show ?thesis
      using here by (simp add: snd_and_then split: option.split)
  qed
qed

subsection \<open>What one iteration and a cycle cut short record\<close>

text \<open>
  The classification that an iteration records for a response, a client error and a
  timeout error raised by the request itself.
\<close>

lemma check_url_classification:
  assumes "aligned (self w)" and "i < length (urls (self w))"
  shows
    "states (self (snd (check_url (Responds 200 t) i url w))) ! i = ''Online'' \<and>
     status (self (snd (check_url (Responds 200 t) i url w))) ! i = ''OK'' \<and>
     (c \<noteq> 200 \<longrightarrow>
        states (self (snd (check_url (Responds c t) i url w))) ! i = ''Offline'' \<and>
        status (self (snd (check_url (Responds c t) i url w))) ! i = ''HTTP '' @ str_int c) \<and>
     states (self (snd (check_url (RaisesClientError msg t) i url w))) ! i = ''Offline'' \<and>
     status (self (snd (check_url (RaisesClientError msg t) i url w))) ! i = msg \<and>
     states (self (snd (check_url (RaisesTimeoutError t) i url w))) ! i = ''Offline'' \<and>
     status (self (snd (check_url (RaisesTimeoutError t) i url w))) ! i = ''Timeout''"
  using assms by (simp add: check_url_cases aligned_def)

text \<open>
  A cycle in which the requests before position \<open>k\<close> complete and the one at position \<open>k\<close>
  does not (the cycle-level timeout fires while the request is awaited or while the
  response is released, or the request raises another exception): \<^verbatim>\<open>async_update\<close> raises,
  registers nothing, and writes nothing to the targets after position \<open>k\<close>; the timestamp
  at position \<open>k\<close> stays, and so do its state and status unless a response had arrived.
\<close>

lemma cycle_cut_short_frame:
  assumes "aligned (self w)" and "k < length (urls (self w))"
    and "\<forall>p < k. completes (probe e p (urls (self w) ! p))"
    and "\<not> completes (probe e k (urls (self w) ! k))"
    and "k \<le> j" and "j < length (urls (self w))"
  shows
    "fst (async_update e w) \<noteq> None \<and>
     listeners (snd (async_update e w)) = listeners w \<and>
     last_updated (self (snd (async_update e w))) ! j = last_updated (self w) ! j \<and>
     ((k < j \<or> (\<forall>c. probe e k (urls (self w) ! k) \<noteq> RespondsThenCancelled c)) \<longrightarrow>
        states (self (snd (async_update e w))) ! j = states (self w) ! j \<and>
        status (self (snd (async_update e w))) ! j = status (self w) ! j)"
proof -
  let ?us = "urls (self w)"
  let ?v = "snd (for_urls e 0 (take k ?us) w)"
  let ?oc = "probe e k (?us ! k)"
  let ?r = "check_url ?oc k (?us ! k) ?v"
  have stop: "for_urls e 0 ?us w = ?r"
    using for_urls_stops [of w ?us k e] assms by simp
  have fx: "aligned (self ?v)" "urls (self ?v) = ?us" "listeners ?v = listeners w"
    using for_urls_fixed [of w 0 "take k ?us" e] assms by simp_all
  have k: "k < length (urls (self ?v))" using fx assms by simp
  have pre: "states (self ?v) ! j = states (self w) ! j \<and>
             status (self ?v) ! j = status (self w) ! j \<and>
             last_updated (self ?v) ! j = last_updated (self w) ! j"
    using for_urls_frame [of w 0 "take k ?us" j e] assms by simp
  have raised: "fst ?r \<noteq> None" and lu: "last_updated (self (snd ?r)) = last_updated (self ?v)"
    using check_url_not_completed [OF fx(1) k, of ?oc "?us ! k"] assms(4) by simp_all
  have ls: "listeners (snd ?r) = listeners w"
    using check_url_fixed [OF fx(1) k, of ?oc "?us ! k"] fx by simp
  have self: "self (snd (async_update e w)) = self (snd ?r)"
    using stop by (simp add: self_async_update)
  have 1: "fst (async_update e w) \<noteq> None"
    using raised stop by (auto simp: fst_async_update fst_check_urls split: option.split)
  have 2: "listeners (snd (async_update e w)) = listeners w"
    using 1 ls stop by (simp add: listeners_async_update snd_check_urls)
  have 3: "last_updated (self (snd (async_update e w))) ! j = last_updated (self w) ! j"
    using self lu pre by simp
  have 4: "states (self (snd ?r)) ! j = states (self ?v) ! j \<and>
           status (self (snd ?r)) ! j = status (self ?v) ! j"
    if "k < j \<or> (\<forall>c. ?oc \<noteq> RespondsThenCancelled c)"
  proof (cases "k < j")
    case True
    then show ?thesis
      using check_url_frame [OF fx(1) k, of j ?oc "?us ! k"] by simp
  next
    case False
    then have "\<forall>c. ?oc \<noteq> RespondsThenCancelled c" using that by simp
    then show ?thesis
      using assms(4) by (cases ?oc) (simp_all add: check_url_cases)
  qed
  show ?thesis
    using 1 2 3 4 self pre by simp
qed

section \<open>The claims\<close>

subsection \<open>The schedule after a cycle-level timeout\<close>

text \<open>
  Claim C1 (the code departs from it).  Setup with one URL, and the cycle-level timeout
  fires in the first cycle while the request is awaited: \<^verbatim>\<open>async_update\<close> raises before it
  registers the interval, no listener exists afterwards, and whatever the interval firings
  \<open>ess\<close> would bring, no further cycle runs: the world stays as the first cycle left it.
\<close>

theorem first_cycle_timeout_ends_schedule:
  "startup [DOMAIN \<mapsto> [CONF_NAME \<mapsto> [''A''], CONF_URL \<mapsto> [''http://a'']]] (scripted []) =
     Inr \<lparr>self = init [''A''] [''http://a''], listeners = 0, requests = [''http://a'']\<rparr> \<and>
   ticks ess \<lparr>self = init [''A''] [''http://a''], listeners = 0, requests = [''http://a'']\<rparr> =
     \<lparr>self = init [''A''] [''http://a''], listeners = 0, requests = [''http://a'']\<rparr>"
  by (simp add: ticks_without_listeners startup_def async_setup_def async_update_def
      check_urls_def check_url_def scripted_def init_def DOMAIN_def CONF_NAME_def CONF_URL_def)

subsection \<open>Classification of a probe\<close>

text \<open>
  Claim C2 (the code departs from it).  A new monitor of one URL whose request is still
  awaited when the cycle-level timeout expires.  The probe records no classification: the
  state stays \<open>Unknown\<close>, the status stays empty and the timestamp stays \<^verbatim>\<open>datetime.min\<close>,
  where the claim has state \<open>Offline\<close> and status \<open>Timeout\<close>; and \<^verbatim>\<open>async_update\<close> raises the
  timeout error.
\<close>

theorem cycle_timeout_records_no_classification:
  "async_update (scripted [])
     \<lparr>self = init [''A''] [''http://a''], listeners = 0, requests = []\<rparr> =
   (Some AsyncTimeoutError,
    \<lparr>self = \<lparr>names = [''A''], urls = [''http://a''], states = [''Unknown''], status = [''''],
       last_updated = [datetime_min]\<rparr>,
     listeners = 0, requests = [''http://a'']\<rparr>)"
  by (simp add: async_update_def check_urls_def check_url_def scripted_def init_def)

subsection \<open>A cycle cut short by the cycle-level timeout\<close>

text \<open>
  Claim C3 (the code departs from it).  Setup with two URLs; in the first cycle the first
  request gets a response with status 200 and the cycle-level timeout fires while the
  second request is awaited.  The second target keeps its state \<open>Unknown\<close>, its empty status
  and its timestamp \<^verbatim>\<open>datetime.min\<close>, as the claim says.  But \<^verbatim>\<open>async_update\<close> has raised
  before it registered the interval: no listener exists, and whatever the interval firings
  \<open>ess\<close> would bring, no next cycle runs and the second URL is never requested again.
\<close>

theorem remaining_target_never_attempted_again:
  "startup
     [DOMAIN \<mapsto> [CONF_NAME \<mapsto> [''A'', ''B''], CONF_URL \<mapsto> [''http://a'', ''http://b'']]]
     (scripted [Responds 200 \<lparr>year = 2024, month = 2, day = 29, hour = 13, minute = 5,
        second = 9, microsecond = 0\<rparr>]) =
   Inr \<lparr>self = \<lparr>names = [''A'', ''B''], urls = [''http://a'', ''http://b''],
           states = [''Online'', ''Unknown''], status = [''OK'', ''''],
           last_updated = [\<lparr>year = 2024, month = 2, day = 29, hour = 13, minute = 5,
              second = 9, microsecond = 0\<rparr>, datetime_min]\<rparr>,
        listeners = 0, requests = [''http://a'', ''http://b'']\<rparr> \<and>
   requests (ticks ess
     \<lparr>self = \<lparr>names = [''A'', ''B''], urls = [''http://a'', ''http://b''],
        states = [''Online'', ''Unknown''], status = [''OK'', ''''],
        last_updated = [\<lparr>year = 2024, month = 2, day = 29, hour = 13, minute = 5,
           second = 9, microsecond = 0\<rparr>, datetime_min]\<rparr>,
      listeners = 0, requests = [''http://a'', ''http://b'']\<rparr>) =
     [''http://a'', ''http://b'']"
  by (simp add: ticks_without_listeners startup_def async_setup_def async_update_def
      check_urls_def check_url_def record_response_def set_states_def set_status_def
      set_last_updated_def setitem_def scripted_def init_def DOMAIN_def CONF_NAME_def
      CONF_URL_def)

subsection \<open>Which exceptions a probe absorbs\<close>




subsection \<open>Lists of different lengths\<close>

text \<open>
  Claim C5 (as stated, refuted).  With two names and three URLs, setup does not fail: it
  returns \<^verbatim>\<open>True\<close> and has created a monitor with two names and three state entries.
\<close>

theorem length_mismatch_counterexample:
  "async_setup [DOMAIN \<mapsto> [CONF_NAME \<mapsto> [''A'', ''B''],
       CONF_URL \<mapsto> [''http://a'', ''http://b'', ''http://c'']]] =
   Inr (True,
     \<lparr>self = \<lparr>names = [''A'', ''B''], urls = [''http://a'', ''http://b'', ''http://c''],
        states = [''Unknown'', ''Unknown'', ''Unknown''], status = ['''', '''', ''''],
        last_updated = [datetime_min, datetime_min, datetime_min]\<rparr>,
      listeners = 0, requests = []\<rparr>)"
  by (simp add: async_setup_def init_def DOMAIN_def CONF_NAME_def CONF_URL_def
      numeral_3_eq_3)

text \<open>
  Claim C5 (amended).  Setup never compares the two lengths: for every names list and
  every URL list it succeeds, stores the names as given and builds one state entry per
  URL, whatever the number of names.
\<close>

theorem setup_ignores_length_mismatch:
  "async_setup [DOMAIN \<mapsto> [CONF_NAME \<mapsto> ns, CONF_URL \<mapsto> us]] =
     Inr (True, \<lparr>self = init ns us, listeners = 0, requests = []\<rparr>) \<and>
   names (init ns us) = ns \<and> urls (init ns us) = us \<and>
   length (states (init ns us)) = length us \<and>
   length (status (init ns us)) = length us \<and>
   length (last_updated (init ns us)) = length us"
  by (simp add: async_setup_def init_def DOMAIN_def CONF_NAME_def CONF_URL_def)

subsection \<open>State and status\<close>

text \<open>
  Claim C6 (as stated, refuted).  A client error whose description is the text \<open>OK\<close> is
  recorded as state \<open>Offline\<close> with status \<open>OK\<close>.
\<close>

theorem offline_with_status_ok_counterexample:
  "states (self (snd (check_url (RaisesClientError ''OK'' datetime_min) 0 ''http://a''
      \<lparr>self = init [''A''] [''http://a''], listeners = 0, requests = []\<rparr>))) ! 0 = ''Offline'' \<and>
   status (self (snd (check_url (RaisesClientError ''OK'' datetime_min) 0 ''http://a''
      \<lparr>self = init [''A''] [''http://a''], listeners = 0, requests = []\<rparr>))) ! 0 = ''OK''"
  by (simp add: check_url_def set_states_def set_status_def set_last_updated_def setitem_def
      init_def)

text \<open>
  Claim C6 (amended).  After any sequence of cycles on a new monitor, complete or cut
  short at any request, every target whose state is \<open>Online\<close> has status \<open>OK\<close>; and when no
  request of these cycles raised a client error whose description is \<open>OK\<close>, every target
  whose status is \<open>OK\<close> has state \<open>Online\<close>.
\<close>

theorem online_iff_ok:
  assumes "j < length us"
  shows
    "(states (self (cycles es \<lparr>self = init ns us, listeners = l, requests = rq\<rparr>)) ! j = ''Online'' \<longrightarrow>
      status (self (cycles es \<lparr>self = init ns us, listeners = l, requests = rq\<rparr>)) ! j = ''OK'') \<and>
     ((\<forall>e \<in> set es. \<forall>i u t. probe e i u \<noteq> RaisesClientError ''OK'' t) \<longrightarrow>
      status (self (cycles es \<lparr>self = init ns us, listeners = l, requests = rq\<rparr>)) ! j = ''OK'' \<longrightarrow>
      states (self (cycles es \<lparr>self = init ns us, listeners = l, requests = rq\<rparr>)) ! j = ''Online'')"
proof -
  let ?w = "\<lparr>self = init ns us, listeners = l, requests = rq\<rparr>"
  let ?A = "\<lambda>d. aligned d \<and> urls d = us \<and>
              (\<forall>j < length us. states d ! j = ''Online'' \<longrightarrow> status d ! j = ''OK'')"
  let ?B = "\<lambda>d. aligned d \<and> urls d = us \<and>
              (\<forall>j < length us. status d ! j = ''OK'' \<longrightarrow> states d ! j = ''Online'')"
  have A0: "?A (self ?w)" and B0: "?B (self ?w)"
    by (simp_all add: init_aligned) (simp_all add: init_def)
  have stepA: "?A (self (snd (async_update e v)))" if "?A (self v)" for e v
  proof (rule async_update_keeps [where I = ?A and n = "length us"])
    fix i url and x :: world
    assume "?A (self x)" and "i < length us"
    then show "?A (self (snd (check_url (probe e i url) i url x)))"
      using check_url_fixed [of x i "probe e i url" url]
        check_url_online_ok [of x i "probe e i url" url] by simp
  next
    show "?A (self v)" by (rule that)
  next
    show "length (urls (self v)) \<le> length us" using that by simp
  qed
  have A: "?A (self (cycles es ?w))"
    by (rule cycles_keeps [where I = ?A]) (use stepA A0 in blast)+
  have B: "?B (self (cycles es ?w))"
    if ok: "\<forall>e \<in> set es. \<forall>i u t. probe e i u \<noteq> RaisesClientError ''OK'' t"
  proof (rule cycles_keeps [where I = ?B])
    show "\<forall>e \<in> set es. \<forall>v. ?B (self v) \<longrightarrow> ?B (self (snd (async_update e v)))"
    proof (intro ballI allI impI)
      fix e and v :: world
      assume e: "e \<in> set es" and v: "?B (self v)"
      show "?B (self (snd (async_update e v)))"
      proof (rule async_update_keeps [where I = ?B and n = "length us"])
        fix i url and x :: world
        assume "?B (self x)" and "i < length us"
        then show "?B (self (snd (check_url (probe e i url) i url x)))"
          using check_url_fixed [of x i "probe e i url" url]
            check_url_ok_online [of x i "probe e i url" url] ok e by simp
      next
        show "?B (self v)" by (rule v)
      next
        show "length (urls (self v)) \<le> length us" using v by simp
      qed
    qed
  next
    show "?B (self ?w)" by (rule B0)
  qed
  show ?thesis
    using A B assms by blast
qed

theorem online_iff_ok_witness:
  "states (self (cycles [scripted [Responds 200 datetime_min, Responds 404 datetime_min]]
      \<lparr>self = init [''A'', ''B''] [''http://a'', ''http://b''], listeners = 0, requests = []\<rparr>)) ! 0 =
     ''Online'' \<and>
   status (self (cycles [scripted [Responds 200 datetime_min, Responds 404 datetime_min]]
      \<lparr>self = init [''A'', ''B''] [''http://a'', ''http://b''], listeners = 0, requests = []\<rparr>)) ! 0 =
     ''OK''"
proof -
  let ?e = "scripted [Responds 200 datetime_min, Responds 404 datetime_min]"
  let ?w = "\<lparr>self = init [''A'', ''B''] [''http://a'', ''http://b''], listeners = 0, requests = []\<rparr>"
  have j: "(0::nat) < length [''http://a'', ''http://b'']" by simp
  have ok: "\<forall>e \<in> set [?e]. \<forall>i u t. probe e i u \<noteq> RaisesClientError ''OK'' t"
    by (auto simp: scripted_def less_Suc_eq)
  have online: "states (self (cycles [?e] ?w)) ! 0 = ''Online''"
    by (simp add: async_update_def check_urls_def check_url_def record_response_def
        set_states_def set_status_def set_last_updated_def setitem_def scripted_def init_def)
  show ?thesis
    using online_iff_ok [OF j, of "[?e]" "[''A'', ''B'']" 0 "[]"] ok online by blast
qed

subsection \<open>Timestamps do not go backwards\<close>

text \<open>
  Claim C7.  Let the readings of the clock during a sequence of cycles on a new monitor be
  datetimes in non-decreasing order.  Then for every target the timestamp stored after the
  first \<open>m\<close> cycles is not later than the one stored after the first \<open>n\<close> cycles, for all
  \<open>m \<le> n\<close>: every completed check stores a timestamp that is not earlier than the one it
  replaces.
\<close>

theorem last_updated_nondecreasing:
  assumes "sorted_wrt dt_le (clock es us)"
    and "\<forall>r \<in> set (clock es us). valid_datetime r"
    and "m \<le> n" and "j < length us"
  shows "dt_le
     (last_updated (self (cycles (take m es)
        \<lparr>self = init ns us, listeners = l, requests = rq\<rparr>)) ! j)
     (last_updated (self (cycles (take n es)
        \<lparr>self = init ns us, listeners = l, requests = rq\<rparr>)) ! j)"
proof -
  let ?w = "\<lparr>self = init ns us, listeners = l, requests = rq\<rparr>"
  let ?xs = "take m es"
  let ?ys = "take (n - m) (drop m es)"
  let ?zs = "drop (n - m) (drop m es)"
  have es: "es = ?xs @ ?ys @ ?zs" by (simp only: append_take_drop_id)
  have n: "take n es = ?xs @ ?ys"
    using assms(3) take_add [of m "n - m" es] by simp
  have clock: "clock es us = clock ?xs us @ clock ?ys us @ clock ?zs us"
    using es clock_append by metis
  have start: "\<forall>j < length us. \<forall>r \<in> set (clock es us). dt_le (last_updated (self ?w) ! j) r"
    using assms(2) by (simp add: init_def dt_le_min)
  have first: "aligned (self (cycles ?xs ?w)) \<and> urls (self (cycles ?xs ?w)) = us \<and>
     (\<forall>j < length us. \<forall>r \<in> set (clock ?ys us @ clock ?zs us).
        dt_le (last_updated (self (cycles ?xs ?w)) ! j) r)"
    using cycles_clock [of ?w us ?xs "clock ?ys us @ clock ?zs us"] assms(1) start clock
    by (simp add: init_aligned) (simp add: init_def)
  have sorted: "sorted_wrt dt_le (clock ?ys us @ clock ?zs us)"
    using assms(1) clock by (simp add: sorted_wrt_append)
  have "\<forall>j < length us.
     dt_le (last_updated (self (cycles ?xs ?w)) ! j)
       (last_updated (self (cycles ?ys (cycles ?xs ?w))) ! j)"
    using cycles_clock [of "cycles ?xs ?w" us ?ys "clock ?zs us"] first sorted by simp
  then show ?thesis
    using assms(4) n by (simp add: cycles_append)
qed

theorem last_updated_nondecreasing_witness:
  "last_updated (self (cycles (take 1
      [scripted [Responds 200 \<lparr>year = 2024, month = 2, day = 29, hour = 13, minute = 5,
         second = 9, microsecond = 1500\<rparr>],
       scripted [Responds 500 \<lparr>year = 2024, month = 2, day = 29, hour = 14, minute = 5,
         second = 9, microsecond = 0\<rparr>]])
      \<lparr>self = init [''A''] [''http://a''], listeners = 0, requests = []\<rparr>)) ! 0 =
     \<lparr>year = 2024, month = 2, day = 29, hour = 13, minute = 5, second = 9, microsecond = 1500\<rparr> \<and>
   last_updated (self (cycles (take 2
      [scripted [Responds 200 \<lparr>year = 2024, month = 2, day = 29, hour = 13, minute = 5,
         second = 9, microsecond = 1500\<rparr>],
       scripted [Responds 500 \<lparr>year = 2024, month = 2, day = 29, hour = 14, minute = 5,
         second = 9, microsecond = 0\<rparr>]])
      \<lparr>self = init [''A''] [''http://a''], listeners = 0, requests = []\<rparr>)) ! 0 =
     \<lparr>year = 2024, month = 2, day = 29, hour = 14, minute = 5, second = 9, microsecond = 0\<rparr> \<and>
   dt_le
     \<lparr>year = 2024, month = 2, day = 29, hour = 13, minute = 5, second = 9, microsecond = 1500\<rparr>
     \<lparr>year = 2024, month = 2, day = 29, hour = 14, minute = 5, second = 9, microsecond = 0\<rparr>"
proof -
  let ?t1 = "\<lparr>year = 2024, month = 2, day = 29, hour = 13, minute = 5, second = 9,
     microsecond = 1500\<rparr>"
  let ?t2 = "\<lparr>year = 2024, month = 2, day = 29, hour = 14, minute = 5, second = 9,
     microsecond = 0\<rparr>"
  let ?es = "[scripted [Responds 200 ?t1], scripted [Responds 500 ?t2]]"
  let ?w = "\<lparr>self = init [''A''] [''http://a''], listeners = 0, requests = []\<rparr>"
  have clock: "clock ?es [''http://a''] = [?t1, ?t2]"
    by (simp add: clock_def scripted_def)
  have a: "sorted_wrt dt_le (clock ?es [''http://a''])"
    by (simp add: clock dt_le_def dt_fields_def)
  have b: "\<forall>r \<in> set (clock ?es [''http://a'']). valid_datetime r"
    by (simp add: clock valid_datetime_def days_in_month_def is_leap_def)
  have c: "(1::nat) \<le> 2" by simp
  have d: "(0::nat) < length [''http://a'']" by simp
  have v1: "last_updated (self (cycles (take 1 ?es) ?w)) ! 0 = ?t1"
    by (simp add: async_update_def check_urls_def check_url_def record_response_def
        set_states_def set_status_def set_last_updated_def setitem_def scripted_def init_def)
  have v2: "last_updated (self (cycles (take 2 ?es) ?w)) ! 0 = ?t2"
    by (simp add: async_update_def check_urls_def check_url_def record_response_def
        set_states_def set_status_def set_last_updated_def setitem_def scripted_def init_def)
  show ?thesis
    using last_updated_nondecreasing [OF a b c d, of "[''A'']" 0 "[]"] v1 v2 by simp
qed

subsection \<open>The timestamp in the attributes\<close>

text \<open>
  Claim C8.  For a target at position \<open>i\<close> of a new monitor, after any sequence of cycles
  in none of which the request at position \<open>i\<close> completed, the attribute \<open>Last Updated\<close> is
  the text \<^verbatim>\<open>0001-01-01T00:00:00\<close>, the rendering of \<^verbatim>\<open>datetime.min\<close>.  No other datetime is
  rendered as this text, so it marks a target that was never checked.  After a check that
  completes with the clock reading \<open>t\<close>, the attribute is the ISO rendering of \<open>t\<close>.
\<close>

theorem last_updated_attribute:
  assumes "i < length us"
  shows
    "((\<forall>e \<in> set es. \<not> completes (probe e i (us ! i))) \<longrightarrow>
        extra_state_attributes
          \<lparr>sensor_data = self (cycles es \<lparr>self = init ns us, listeners = l, requests = rq\<rparr>),
           sensor_index = int i\<rparr> =
        Inr [(''URL'', us ! i),
             (''Status'', status (self (cycles es
                \<lparr>self = init ns us, listeners = l, requests = rq\<rparr>)) ! i),
             (''Last Updated'', ''0001-01-01T00:00:00'')]) \<and>
     (valid_datetime t \<and> t \<noteq> datetime_min \<longrightarrow> isoformat t \<noteq> ''0001-01-01T00:00:00'') \<and>
     (aligned (self w) \<and> urls (self w) = us \<longrightarrow>
        extra_state_attributes
          \<lparr>sensor_data = self (snd (check_url (Responds c t) i url w)), sensor_index = int i\<rparr> =
        Inr [(''URL'', us ! i),
             (''Status'', if c = 200 then ''OK'' else ''HTTP '' @ str_int c),
             (''Last Updated'', isoformat t)] \<and>
        extra_state_attributes
          \<lparr>sensor_data = self (snd (check_url (RaisesClientError msg t) i url w)),
           sensor_index = int i\<rparr> =
        Inr [(''URL'', us ! i), (''Status'', msg), (''Last Updated'', isoformat t)] \<and>
        extra_state_attributes
          \<lparr>sensor_data = self (snd (check_url (RaisesTimeoutError t) i url w)),
           sensor_index = int i\<rparr> =
        Inr [(''URL'', us ! i), (''Status'', ''Timeout''), (''Last Updated'', isoformat t)])"
proof -
  let ?w0 = "\<lparr>self = init ns us, listeners = l, requests = rq\<rparr>"
  let ?I = "\<lambda>d. aligned d \<and> urls d = us \<and> last_updated d ! i = datetime_min"
  have never: "?I (self (cycles es ?w0))"
    if nc: "\<forall>e \<in> set es. \<not> completes (probe e i (us ! i))"
  proof (rule cycles_keeps [where I = ?I])
    show "\<forall>e \<in> set es. \<forall>v. ?I (self v) \<longrightarrow> ?I (self (snd (async_update e v)))"
    proof (intro ballI allI impI)
      fix e and v :: world
      assume e: "e \<in> set es" and v: "?I (self v)"
      have "last_updated (self (snd (for_urls e 0 us v))) ! i = last_updated (self v) ! i"
        using for_urls_not_completed [of v 0 us i e] v nc e by simp
      then show "?I (self (snd (async_update e v)))"
        using for_urls_fixed [of v 0 us e] v by (simp add: self_async_update)
    qed
  next
    show "?I (self ?w0)"
      using assms by (simp add: init_aligned) (simp add: init_def)
  qed
  have fresh: "extra_state_attributes
      \<lparr>sensor_data = self (cycles es ?w0), sensor_index = int i\<rparr> =
      Inr [(''URL'', us ! i), (''Status'', status (self (cycles es ?w0)) ! i),
           (''Last Updated'', ''0001-01-01T00:00:00'')]"
    if nc: "\<forall>e \<in> set es. \<not> completes (probe e i (us ! i))"
    using never [OF nc] assms
    by (simp add: extra_state_attributes_def getitem_nat aligned_def isoformat_datetime_min)
  have marker: "isoformat t \<noteq> ''0001-01-01T00:00:00''"
    if "valid_datetime t" and "t \<noteq> datetime_min"
    using isoformat_eq_min [of t] that by blast
  have after_check: "extra_state_attributes
          \<lparr>sensor_data = self (snd (check_url (Responds c t) i url w)), sensor_index = int i\<rparr> =
        Inr [(''URL'', us ! i),
             (''Status'', if c = 200 then ''OK'' else ''HTTP '' @ str_int c),
             (''Last Updated'', isoformat t)] \<and>
        extra_state_attributes
          \<lparr>sensor_data = self (snd (check_url (RaisesClientError msg t) i url w)),
           sensor_index = int i\<rparr> =
        Inr [(''URL'', us ! i), (''Status'', msg), (''Last Updated'', isoformat t)] \<and>
        extra_state_attributes
          \<lparr>sensor_data = self (snd (check_url (RaisesTimeoutError t) i url w)),
           sensor_index = int i\<rparr> =
        Inr [(''URL'', us ! i), (''Status'', ''Timeout''), (''Last Updated'', isoformat t)]"
    if "aligned (self w)" and "urls (self w) = us"
    using that assms
    by (simp add: check_url_cases extra_state_attributes_def getitem_nat aligned_def)
  show ?thesis
    using fresh marker after_check by blast
qed

theorem last_updated_attribute_witness:
  "extra_state_attributes
     \<lparr>sensor_data = self (cycles [scripted []]
        \<lparr>self = init [''A''] [''http://a''], listeners = 0, requests = []\<rparr>),
      sensor_index = int 0\<rparr> =
     Inr [(''URL'', ''http://a''), (''Status'', ''''),
          (''Last Updated'', ''0001-01-01T00:00:00'')] \<and>
   isoformat \<lparr>year = 2024, month = 2, day = 29, hour = 13, minute = 5, second = 9,
      microsecond = 1500\<rparr> \<noteq> ''0001-01-01T00:00:00'' \<and>
   extra_state_attributes
     \<lparr>sensor_data = self (snd (check_url
        (Responds 200 \<lparr>year = 2024, month = 2, day = 29, hour = 13, minute = 5, second = 9,
           microsecond = 1500\<rparr>) 0 ''http://a''
        \<lparr>self = init [''A''] [''http://a''], listeners = 0, requests = []\<rparr>)),
      sensor_index = int 0\<rparr> =
     Inr [(''URL'', ''http://a''), (''Status'', ''OK''),
          (''Last Updated'', ''2024-02-29T13:05:09.001500'')]"
proof -
  let ?t = "\<lparr>year = 2024, month = 2, day = 29, hour = 13, minute = 5, second = 9,
     microsecond = 1500\<rparr>"
  let ?w = "\<lparr>self = init [''A''] [''http://a''], listeners = 0, requests = []\<rparr>"
  have i: "(0::nat) < length [''http://a'']" by simp
  have nc: "\<forall>e \<in> set [scripted []]. \<not> completes (probe e 0 ([''http://a''] ! 0))"
    by (simp add: scripted_def)
  have v: "valid_datetime ?t \<and> ?t \<noteq> datetime_min"
    by (simp add: valid_datetime_def days_in_month_def is_leap_def datetime_min_def)
  have a: "aligned (self ?w) \<and> urls (self ?w) = [''http://a'']"
    by (simp add: init_aligned) (simp add: init_def)
  have st: "status (self (cycles [scripted []] ?w)) ! 0 = ''''"
    by (simp add: async_update_def check_urls_def check_url_def scripted_def init_def)
  have iso: "isoformat ?t = ''2024-02-29T13:05:09.001500''"
    by (simp add: isoformat_def zero_pad_def str_nat.simps digit_char_def numeral_2_eq_2)
  show ?thesis
    using last_updated_attribute [OF i, of "[scripted []]" "[''A'']" 0 "[]" ?t ?w 200
        "''http://a''" "''x''"] nc v a st iso
    by simp
qed

subsection \<open>The configured names are not read\<close>

text \<open>
  Claim C9.  The names list is stored by the constructor and read by no accessor: the
  sensor at index \<open>i\<close> is named \<open>URL Monitor\<close> followed by \<open>i + 1\<close> in decimal, the sensors
  of a new monitor carry these names in order, and replacing the stored names list by any
  other list changes none of \<open>name\<close>, \<open>state\<close>, \<open>icon\<close> and \<open>extra_state_attributes\<close>.
\<close>

theorem names_stored_but_unused:
  "names (init ns us) = ns \<and>
   name \<lparr>sensor_data = d, sensor_index = i\<rparr> = ''URL Monitor '' @ str_int (i + 1) \<and>
   map name (sensors (init ns us)) =
     map (\<lambda>k. ''URL Monitor '' @ str_int (int k + 1)) [0..<length us] \<and>
   name (s\<lparr>sensor_data := (sensor_data s)\<lparr>names := ns'\<rparr>\<rparr>) = name s \<and>
   state (s\<lparr>sensor_data := (sensor_data s)\<lparr>names := ns'\<rparr>\<rparr>) = state s \<and>
   icon (s\<lparr>sensor_data := (sensor_data s)\<lparr>names := ns'\<rparr>\<rparr>) = icon s \<and>
   extra_state_attributes (s\<lparr>sensor_data := (sensor_data s)\<lparr>names := ns'\<rparr>\<rparr>) =
     extra_state_attributes s"
  by (simp add: init_def name_def state_def icon_def extra_state_attributes_def sensors_def
      split: sum.split)

subsection \<open>Importing the module\<close>

text \<open>
  Claim C10.  Provided \<open>vol\<close> is not a builtin name, executing the module's top level
  raises \<^verbatim>\<open>NameError\<close> for \<open>vol\<close> while it evaluates \<^verbatim>\<open>CONFIG_SCHEMA\<close>; at that point
  neither \<^verbatim>\<open>CONFIG_SCHEMA\<close> nor \<^verbatim>\<open>async_setup\<close> nor the two classes are bound, so no setup
  and no monitoring can run.
\<close>

theorem module_import_raises_NameError:
  assumes "''vol'' \<notin> set builtins"
  shows "fst (exec_module builtins module_body module_globals) = Some (NameError ''vol'') \<and>
         ''CONFIG_SCHEMA'' \<notin> set (snd (exec_module builtins module_body module_globals)) \<and>
         ''async_setup'' \<notin> set (snd (exec_module builtins module_body module_globals)) \<and>
         ''URLMonitor'' \<notin> set (snd (exec_module builtins module_body module_globals)) \<and>
         ''URLMonitorData'' \<notin> set (snd (exec_module builtins module_body module_globals))"
  using assms by (simp add: module_body_def module_globals_def)

theorem module_import_raises_NameError_witness:
  "''vol'' \<notin> set [''len'', ''str'', ''int'', ''bool'', ''property'', ''range'', ''enumerate''] \<and>
   fst (exec_module [''len'', ''str'', ''int'', ''bool'', ''property'', ''range'', ''enumerate'']
          module_body module_globals) = Some (NameError ''vol'') \<and>
   ''async_setup'' \<notin> set (snd (exec_module
          [''len'', ''str'', ''int'', ''bool'', ''property'', ''range'', ''enumerate'']
          module_body module_globals))"
proof -
  have h: "''vol'' \<notin> set [''len'', ''str'', ''int'', ''bool'', ''property'', ''range'', ''enumerate'']"
    by simp
  show ?thesis
    using h module_import_raises_NameError [OF h] by blast
qed

end
